theory Spec2Isabelle
  imports Main
begin

section \<open>JavaScript values\<close>

text \<open>
  Keys and values of the caches are arbitrary JavaScript values. The two in-memory
  engines test some of them for truthiness (\<^verbatim>\<open>if (!value)\<close>, \<^verbatim>\<open>if (value)\<close>), so the
  model keeps the distinction between the falsy values and the rest. Numbers are
  restricted to the integer-valued ones (no \<^verbatim>\<open>NaN\<close>, no fractions, no negative zero);
  an object is its reference.
\<close>

datatype jsval =
    Undefined
  | Null
  | JBool bool
  | JNum int
  | JStr string
  | JObj nat

fun truthy :: "jsval \<Rightarrow> bool" where
  "truthy Undefined = False"
| "truthy Null = False"
| "truthy (JBool b) = b"
| "truthy (JNum n) = (n \<noteq> 0)"
| "truthy (JStr s) = (s \<noteq> [])"
| "truthy (JObj r) = True"

section \<open>The built-in Map\<close>

text \<open>
  Both engines extend the built-in \<^verbatim>\<open>Map\<close>, which iterates in insertion order. It is
  modelled as an association list, oldest entry first. \<^verbatim>\<open>Map.prototype.set\<close> on a key
  that is present replaces the value and keeps the entry's position; on an absent key it
  appends. \<^verbatim>\<open>Map.prototype.delete\<close> reports whether the key was present.
\<close>

type_synonym ('k, 'v) jsmap = "('k \<times> 'v) list"

fun Map_get :: "('k, 'v) jsmap \<Rightarrow> 'k \<Rightarrow> 'v option" where
  "Map_get [] k = None"
| "Map_get ((k', v') # m) k = (if k' = k then Some v' else Map_get m k)"

fun Map_has :: "('k, 'v) jsmap \<Rightarrow> 'k \<Rightarrow> bool" where
  "Map_has [] k = False"
| "Map_has ((k', v') # m) k = (k' = k \<or> Map_has m k)"

fun Map_set :: "('k, 'v) jsmap \<Rightarrow> 'k \<Rightarrow> 'v \<Rightarrow> ('k, 'v) jsmap" where
  "Map_set [] k v = [(k, v)]"
| "Map_set ((k', v') # m) k v = (if k' = k then (k, v) # m else (k', v') # Map_set m k v)"

fun Map_delete :: "('k, 'v) jsmap \<Rightarrow> 'k \<Rightarrow> ('k, 'v) jsmap" where
  "Map_delete [] k = []"
| "Map_delete ((k', v') # m) k = (if k' = k then Map_delete m k else (k', v') # Map_delete m k)"

definition Map_size :: "('k, 'v) jsmap \<Rightarrow> nat" where
  "Map_size m = length m"

definition Map_keys :: "('k, 'v) jsmap \<Rightarrow> 'k list" where
  "Map_keys m = map fst m"

text \<open>\<^verbatim>\<open>super.get(key)\<close> as JavaScript sees it: \<^verbatim>\<open>undefined\<close> for an absent key.\<close>

definition Map_get_js :: "(jsval, jsval) jsmap \<Rightarrow> jsval \<Rightarrow> jsval" where
  "Map_get_js m k = (case Map_get m k of None \<Rightarrow> Undefined | Some v \<Rightarrow> v)"

text \<open>\<^verbatim>\<open>super.keys().next().value\<close>: the oldest key, \<^verbatim>\<open>undefined\<close> on an empty map.\<close>

definition Map_first_key :: "(jsval, 'v) jsmap \<Rightarrow> jsval" where
  "Map_first_key m = (case m of [] \<Rightarrow> Undefined | (k, v) # rest \<Rightarrow> k)"

section \<open>LRUCache\<close>

record LRUCache =
  lru_store :: "(jsval, jsval) jsmap"
  capacity :: int

definition LRUCache_new :: "int \<Rightarrow> LRUCache" where
  "LRUCache_new cap = \<lparr> lru_store = [], capacity = cap \<rparr>"

text \<open>
  \<^verbatim>\<open>get(key)\<close>: a falsy stored value is answered like an absent key; otherwise the
  entry is deleted and set again, which moves it to the end of the iteration order.
\<close>

definition LRU_get :: "LRUCache \<Rightarrow> jsval \<Rightarrow> jsval \<times> LRUCache" where
  "LRU_get c key =
     (let value = Map_get_js (lru_store c) key in
      if \<not> truthy value then (Undefined, c)
      else (value, c\<lparr> lru_store := Map_set (Map_delete (lru_store c) key) key value \<rparr>))"

text \<open>
  \<^verbatim>\<open>set(key, value)\<close>: when the size has reached the capacity, the oldest key is read
  and, if it is truthy, deleted; then the built-in \<^verbatim>\<open>set\<close> runs.
\<close>

definition LRU_set :: "LRUCache \<Rightarrow> jsval \<Rightarrow> jsval \<Rightarrow> LRUCache" where
  "LRU_set c key value =
     (let m = lru_store c;
          m' = (if int (Map_size m) \<ge> capacity c then
                  (let oldest = Map_first_key m in
                   if truthy oldest then Map_delete m oldest else m)
                else m)
      in c\<lparr> lru_store := Map_set m' key value \<rparr>)"

text \<open>The inherited \<^verbatim>\<open>delete\<close>, \<^verbatim>\<open>has\<close> and \<^verbatim>\<open>size\<close> of the LRU engine.\<close>

definition LRU_delete :: "LRUCache \<Rightarrow> jsval \<Rightarrow> bool \<times> LRUCache" where
  "LRU_delete c key = (Map_has (lru_store c) key, c\<lparr> lru_store := Map_delete (lru_store c) key \<rparr>)"

definition LRU_size :: "LRUCache \<Rightarrow> nat" where
  "LRU_size c = Map_size (lru_store c)"

definition LRU_has :: "LRUCache \<Rightarrow> jsval \<Rightarrow> bool" where
  "LRU_has c key = Map_has (lru_store c) key"

text \<open>A sequence of \<^verbatim>\<open>set\<close> calls, in order.\<close>

fun LRU_sets :: "LRUCache \<Rightarrow> (jsval \<times> jsval) list \<Rightarrow> LRUCache" where
  "LRU_sets c [] = c"
| "LRU_sets c ((k, v) # kvs) = LRU_sets (LRU_set c k v) kvs"

section \<open>TTLCache\<close>

text \<open>
  \<^verbatim>\<open>expirationTimes\<close> is a second Map, from keys to absolute expiry instants in
  milliseconds. \<^verbatim>\<open>expirationInterval\<close> holds the handle of the \<^verbatim>\<open>setInterval\<close> timer or
  \<^verbatim>\<open>undefined\<close>; the field is assigned exactly where the timer is created and where it
  is cleared, so the model keeps one boolean: \<open>True\<close> while the sweep is scheduled.
  The clock reading \<^verbatim>\<open>Date.now()\<close> is an argument of every operation that reads it.
\<close>

record TTLCache =
  ttl_store :: "(jsval, jsval) jsmap"
  interval :: int
  expirationTimes :: "(jsval, int) jsmap"
  expirationInterval :: bool

definition startExpirationInterval :: "TTLCache \<Rightarrow> TTLCache" where
  "startExpirationInterval c =
     (if \<not> expirationInterval c \<and> Map_size (expirationTimes c) > 0 \<and> interval c > 0
      then c\<lparr> expirationInterval := True \<rparr> else c)"

definition TTLCache_new :: "int \<Rightarrow> TTLCache" where
  "TTLCache_new iv =
     (let c = \<lparr> ttl_store = [], interval = iv, expirationTimes = [], expirationInterval = False \<rparr>
      in if interval c > 0 then startExpirationInterval c else c)"

text \<open>
  \<^verbatim>\<open>set(key, data, ttl = this.interval)\<close>: the default applies when the argument is
  missing (\<open>None\<close>), not when it is \<open>0\<close>.
\<close>

definition TTL_set :: "TTLCache \<Rightarrow> int \<Rightarrow> jsval \<Rightarrow> jsval \<Rightarrow> int option \<Rightarrow> TTLCache" where
  "TTL_set c now key data ttl_arg =
     (let ttl = (case ttl_arg of None \<Rightarrow> interval c | Some t \<Rightarrow> t);
          c1 = c\<lparr> ttl_store := Map_set (ttl_store c) key data \<rparr>;
          expirationTime = now + ttl;
          c2 = c1\<lparr> expirationTimes := Map_set (expirationTimes c1) key expirationTime \<rparr>
      in startExpirationInterval c2)"

text \<open>
  \<^verbatim>\<open>get(key)\<close>: \<^verbatim>\<open>expirationTime && Date.now() > expirationTime\<close> is false for an
  absent expiry and for the expiry instant \<open>0\<close>, which is falsy.
\<close>

definition TTL_get :: "TTLCache \<Rightarrow> int \<Rightarrow> jsval \<Rightarrow> jsval \<times> TTLCache" where
  "TTL_get c now key =
     (case Map_get (expirationTimes c) key of
        Some expirationTime \<Rightarrow>
          if expirationTime \<noteq> 0 \<and> now > expirationTime
          then (Undefined, c\<lparr> expirationTimes := Map_delete (expirationTimes c) key,
                               ttl_store := Map_delete (ttl_store c) key \<rparr>)
          else (Map_get_js (ttl_store c) key, c)
      | None \<Rightarrow> (Map_get_js (ttl_store c) key, c))"

definition TTL_delete :: "TTLCache \<Rightarrow> jsval \<Rightarrow> bool \<times> TTLCache" where
  "TTL_delete c key =
     (Map_has (ttl_store c) key,
      c\<lparr> expirationTimes := Map_delete (expirationTimes c) key,
         ttl_store := Map_delete (ttl_store c) key \<rparr>)"

definition TTL_clear :: "TTLCache \<Rightarrow> TTLCache" where
  "TTL_clear c = c\<lparr> expirationTimes := [], ttl_store := [] \<rparr>"

text \<open>The inherited \<^verbatim>\<open>has\<close> and \<^verbatim>\<open>size\<close>: they read the value store only.\<close>

definition TTL_has :: "TTLCache \<Rightarrow> jsval \<Rightarrow> bool" where
  "TTL_has c key = Map_has (ttl_store c) key"

definition TTL_size :: "TTLCache \<Rightarrow> nat" where
  "TTL_size c = Map_size (ttl_store c)"

text \<open>
  The body of the timer callback. \<^verbatim>\<open>forEach\<close> visits the entries of
  \<^verbatim>\<open>expirationTimes\<close> in order; deleting the entry being visited does not disturb the
  visit of the others.
\<close>

definition sweep_entry :: "int \<Rightarrow> jsval \<times> int \<Rightarrow> TTLCache \<Rightarrow> TTLCache" where
  "sweep_entry now e c =
     (case e of (key, ttl) \<Rightarrow>
        if now > ttl
        then c\<lparr> expirationTimes := Map_delete (expirationTimes c) key,
                ttl_store := Map_delete (ttl_store c) key \<rparr>
        else c)"

definition sweep_callback :: "int \<Rightarrow> TTLCache \<Rightarrow> TTLCache" where
  "sweep_callback now c =
     (let c1 = fold (sweep_entry now) (expirationTimes c) c in
      if Map_size (expirationTimes c1) = 0 then c1\<lparr> expirationInterval := False \<rparr> else c1)"

text \<open>
  One period of the timer: the callback runs when, and only when, the timer is
  scheduled; a cleared timer fires nothing.
\<close>

definition sweep_tick :: "int \<Rightarrow> TTLCache \<Rightarrow> TTLCache" where
  "sweep_tick now c = (if expirationInterval c then sweep_callback now c else c)"

section \<open>Reachable states of a TTLCache\<close>

text \<open>
  The states a caller can produce: a freshly constructed cache, and whatever the public
  operations and the timer make of a reachable state.
\<close>

inductive TTL_reachable :: "TTLCache \<Rightarrow> bool" where
  reach_new: "TTL_reachable (TTLCache_new iv)"
| reach_set: "TTL_reachable c \<Longrightarrow> TTL_reachable (TTL_set c now key data ttl_arg)"
| reach_get: "TTL_reachable c \<Longrightarrow> TTL_reachable (snd (TTL_get c now key))"
| reach_delete: "TTL_reachable c \<Longrightarrow> TTL_reachable (snd (TTL_delete c key))"
| reach_clear: "TTL_reachable c \<Longrightarrow> TTL_reachable (TTL_clear c)"
| reach_tick: "TTL_reachable c \<Longrightarrow> TTL_reachable (sweep_tick now c)"

section \<open>REDISCache\<close>

text \<open>
  The Redis client is an external collaborator: the model takes it as a record of
  functions on an abstract server state \<open>'r\<close>, each of which may answer or throw.
  \<^verbatim>\<open>JSON.parse\<close> and \<^verbatim>\<open>JSON.stringify\<close> are taken the same way. An \<^verbatim>\<open>async\<close> method
  is a function from the world before the call to its outcome and the world after it:
  \<open>Inl\<close> is a rejected promise (an error thrown to the caller), \<open>Inr\<close> a fulfilled one.
  The world holds the server state and the lines written by \<^verbatim>\<open>console.error\<close>.
\<close>

datatype js_error = JsError string

record 'r world =
  server :: 'r
  console :: "js_error list"

type_synonym ('a, 'r) async = "'r world \<Rightarrow> (js_error + 'a) \<times> 'r world"

record 'r RedisClient =
  redis_get :: "jsval \<Rightarrow> 'r \<Rightarrow> (js_error + jsval) \<times> 'r"
  redis_set :: "jsval \<Rightarrow> jsval \<Rightarrow> int option \<Rightarrow> 'r \<Rightarrow> (js_error + jsval) \<times> 'r"
  redis_del :: "jsval \<Rightarrow> 'r \<Rightarrow> (js_error + jsval) \<times> 'r"
  redis_del_many :: "jsval list \<Rightarrow> 'r \<Rightarrow> (js_error + jsval) \<times> 'r"
  redis_exists :: "jsval \<Rightarrow> 'r \<Rightarrow> (js_error + jsval) \<times> 'r"
  redis_keys :: "jsval \<Rightarrow> 'r \<Rightarrow> (js_error + jsval list) \<times> 'r"

record JSON =
  JSON_parse :: "jsval \<Rightarrow> js_error + jsval"
  JSON_stringify :: "jsval \<Rightarrow> js_error + jsval"

record 'r REDISCache =
  cache_identifier :: string
  redis :: "'r RedisClient"

definition async_return :: "'a \<Rightarrow> ('a, 'r) async" where
  "async_return x w = (Inr x, w)"

definition async_bind :: "('a, 'r) async \<Rightarrow> ('a \<Rightarrow> ('b, 'r) async) \<Rightarrow> ('b, 'r) async" where
  "async_bind m f w = (case m w of (Inl e, w') \<Rightarrow> (Inl e, w') | (Inr x, w') \<Rightarrow> f x w')"

definition try_catch :: "('a, 'r) async \<Rightarrow> (js_error \<Rightarrow> ('a, 'r) async) \<Rightarrow> ('a, 'r) async" where
  "try_catch m h w = (case m w of (Inl e, w') \<Rightarrow> h e w' | (Inr x, w') \<Rightarrow> (Inr x, w'))"

definition console_error :: "js_error \<Rightarrow> (unit, 'r) async" where
  "console_error e w = (Inr (), w\<lparr> console := console w @ [e] \<rparr>)"

definition await :: "('r \<Rightarrow> (js_error + 'a) \<times> 'r) \<Rightarrow> ('a, 'r) async" where
  "await f w = (case f (server w) of (res, s') \<Rightarrow> (res, w\<lparr> server := s' \<rparr>))"

definition of_result :: "js_error + 'a \<Rightarrow> ('a, 'r) async" where
  "of_result res w = (res, w)"

definition rejects :: "(js_error + 'a) \<times> 'w \<Rightarrow> bool" where
  "rejects out = (case fst out of Inl e \<Rightarrow> True | Inr x \<Rightarrow> False)"

definition raw_key :: "'r REDISCache \<Rightarrow> string \<Rightarrow> jsval" where
  "raw_key c key = JStr (cache_identifier c @ '':'' @ key)"

definition scan_pattern :: "'r REDISCache \<Rightarrow> jsval" where
  "scan_pattern c = JStr (cache_identifier c @ '':*'')"

definition REDIS_get_try :: "JSON \<Rightarrow> 'r REDISCache \<Rightarrow> string \<Rightarrow> (jsval, 'r) async" where
  "REDIS_get_try J c key =
     async_bind (await (redis_get (redis c) (raw_key c key)))
       (\<lambda>value. if truthy value then of_result (JSON_parse J value) else async_return Undefined)"

definition REDIS_get :: "JSON \<Rightarrow> 'r REDISCache \<Rightarrow> string \<Rightarrow> (jsval, 'r) async" where
  "REDIS_get J c key =
     try_catch (REDIS_get_try J c key)
       (\<lambda>error. async_bind (console_error error) (\<lambda>u. async_return Undefined))"

definition REDIS_set_try :: "JSON \<Rightarrow> 'r REDISCache \<Rightarrow> string \<Rightarrow> jsval \<Rightarrow> int option \<Rightarrow> (bool, 'r) async" where
  "REDIS_set_try J c key value ttl_arg =
     (let ttl = (case ttl_arg of None \<Rightarrow> 0 | Some t \<Rightarrow> t) in
      async_bind (of_result (JSON_stringify J value))
        (\<lambda>payload.
           async_bind (await (redis_set (redis c) (raw_key c key) payload
                                (if ttl > 0 then Some ttl else None)))
             (\<lambda>reply. async_return True)))"

definition REDIS_set :: "JSON \<Rightarrow> 'r REDISCache \<Rightarrow> string \<Rightarrow> jsval \<Rightarrow> int option \<Rightarrow> (bool, 'r) async" where
  "REDIS_set J c key value ttl_arg =
     try_catch (REDIS_set_try J c key value ttl_arg)
       (\<lambda>error. async_bind (console_error error) (\<lambda>u. async_return False))"

definition REDIS_delete_try :: "'r REDISCache \<Rightarrow> string \<Rightarrow> (bool, 'r) async" where
  "REDIS_delete_try c key =
     async_bind (await (redis_del (redis c) (raw_key c key)))
       (\<lambda>count. async_return (count = JNum 1))"

definition REDIS_delete :: "'r REDISCache \<Rightarrow> string \<Rightarrow> (bool, 'r) async" where
  "REDIS_delete c key =
     try_catch (REDIS_delete_try c key)
       (\<lambda>error. async_bind (console_error error) (\<lambda>u. async_return False))"

definition REDIS_has_try :: "'r REDISCache \<Rightarrow> string \<Rightarrow> (bool, 'r) async" where
  "REDIS_has_try c key =
     async_bind (await (redis_exists (redis c) (raw_key c key)))
       (\<lambda>count. async_return (count = JNum 1))"

definition REDIS_has :: "'r REDISCache \<Rightarrow> string \<Rightarrow> (bool, 'r) async" where
  "REDIS_has c key =
     try_catch (REDIS_has_try c key)
       (\<lambda>error. async_bind (console_error error) (\<lambda>u. async_return False))"

fun REDIS_values_loop ::
  "JSON \<Rightarrow> 'r REDISCache \<Rightarrow> jsval list \<Rightarrow> jsval list \<Rightarrow> (jsval list, 'r) async" where
  "REDIS_values_loop J c [] values w = (Inr values, w)"
| "REDIS_values_loop J c (key # keys) values w =
     (case await (redis_get (redis c) key) w of
        (Inl e, w') \<Rightarrow> (Inl e, w')
      | (Inr value, w') \<Rightarrow>
          if truthy value then
            (case JSON_parse J value of
               Inl e \<Rightarrow> (Inl e, w')
             | Inr v \<Rightarrow> REDIS_values_loop J c keys (values @ [v]) w')
          else REDIS_values_loop J c keys values w')"

definition REDIS_values_try :: "JSON \<Rightarrow> 'r REDISCache \<Rightarrow> (jsval list, 'r) async" where
  "REDIS_values_try J c =
     async_bind (await (redis_keys (redis c) (scan_pattern c)))
       (\<lambda>keys. REDIS_values_loop J c keys [])"

definition REDIS_values :: "JSON \<Rightarrow> 'r REDISCache \<Rightarrow> (jsval list, 'r) async" where
  "REDIS_values J c =
     try_catch (REDIS_values_try J c)
       (\<lambda>error. async_bind (console_error error) (\<lambda>u. async_return []))"

definition REDIS_clear_try :: "'r REDISCache \<Rightarrow> (unit, 'r) async" where
  "REDIS_clear_try c =
     async_bind (await (redis_keys (redis c) (scan_pattern c)))
       (\<lambda>keys. if length keys > 0
          then async_bind (await (redis_del_many (redis c) keys)) (\<lambda>count. async_return ())
          else async_return ())"

definition REDIS_clear :: "'r REDISCache \<Rightarrow> (unit, 'r) async" where
  "REDIS_clear c =
     try_catch (REDIS_clear_try c) (\<lambda>err. console_error err)"

definition REDIS_size_try :: "'r REDISCache \<Rightarrow> (nat, 'r) async" where
  "REDIS_size_try c =
     async_bind (await (redis_keys (redis c) (scan_pattern c)))
       (\<lambda>keys. async_return (length keys))"

definition REDIS_size :: "'r REDISCache \<Rightarrow> (nat, 'r) async" where
  "REDIS_size c =
     try_catch (REDIS_size_try c)
       (\<lambda>error. async_bind (console_error error) (\<lambda>u. async_return 0))"

text \<open>
  A client for a server that cannot be reached: every call throws, and the attempt is
  counted in the server state. \<open>json_text\<close> stands in for the JSON functions on plain
  strings: text parses to itself, anything else is a syntax error.
\<close>

definition unreachable :: "'a \<Rightarrow> nat \<Rightarrow> (js_error + 'b) \<times> nat" where
  "unreachable arg n = (Inl (JsError ''ECONNREFUSED''), Suc n)"

definition down_client :: "nat RedisClient" where
  "down_client =
     \<lparr> redis_get = unreachable, redis_set = (\<lambda>k p opts. unreachable k),
       redis_del = unreachable, redis_del_many = unreachable,
       redis_exists = unreachable, redis_keys = unreachable \<rparr>"

definition json_text :: JSON where
  "json_text =
     \<lparr> JSON_parse = (\<lambda>v. case v of JStr t \<Rightarrow> Inr (JStr t) | _ \<Rightarrow> Inl (JsError ''SyntaxError'')),
       JSON_stringify = (\<lambda>v. Inr v) \<rparr>"

section \<open>Facts about the built-in Map\<close>

lemma Map_has_keys: "Map_has m k \<longleftrightarrow> k \<in> set (map fst m)"
  by (induction m) (auto split: if_splits)

lemma Map_get_None: "Map_get m k = None \<longleftrightarrow> \<not> Map_has m k"
  by (induction m) (auto split: if_splits)

lemma Map_delete_absent: "\<not> Map_has m k \<Longrightarrow> Map_delete m k = m"
  by (induction m) (auto split: if_splits)

lemma Map_has_delete: "Map_has (Map_delete m k) k' \<longleftrightarrow> k' \<noteq> k \<and> Map_has m k'"
  by (induction m) (auto split: if_splits)

lemma Map_set_absent: "\<not> Map_has m k \<Longrightarrow> Map_set m k v = m @ [(k, v)]"
  by (induction m) (auto split: if_splits)

lemma Map_get_set_same: "Map_get (Map_set m k v) k = Some v"
  by (induction m) (auto split: if_splits)

lemma Map_has_set: "Map_has (Map_set m k v) k' \<longleftrightarrow> k' = k \<or> Map_has m k'"
  by (induction m) (auto split: if_splits)

lemma length_Map_set_le: "length (Map_set m k v) \<le> Suc (length m)"
  by (induction m) (auto split: if_splits)

lemma length_Map_delete_le: "length (Map_delete m k) \<le> length m"
  by (induction m) (auto simp: le_SucI)

lemma length_Map_delete_less: "Map_has m k \<Longrightarrow> length (Map_delete m k) < length m"
  by (induction m) (auto simp: less_Suc_eq_le length_Map_delete_le)

lemma Map_delete_subset: "set (Map_delete m k) \<subseteq> set m"
  by (induction m) (auto split: if_splits)

lemma Map_set_nonempty: "Map_set m k v \<noteq> []"
  by (cases m) (auto split: if_splits)

lemma Map_has_nonempty: "m \<noteq> [] \<Longrightarrow> \<exists>k. Map_has m k"
  by (cases m) auto

lemma length_Map_set_ge: "length m \<le> length (Map_set m k v)"
  by (induction m) (auto split: if_splits)

lemma Map_get_js_set_same: "Map_get_js (Map_set m k v) k = v"
  by (simp add: Map_get_js_def Map_get_set_same)

lemma startExpirationInterval_fields:
  "ttl_store (startExpirationInterval c) = ttl_store c"
  "expirationTimes (startExpirationInterval c) = expirationTimes c"
  "interval (startExpirationInterval c) = interval c"
  by (simp_all add: startExpirationInterval_def)

lemma TTL_set_fields:
  "ttl_store (TTL_set c now k v a) = Map_set (ttl_store c) k v"
  "expirationTimes (TTL_set c now k v a) =
     Map_set (expirationTimes c) k (now + (case a of None \<Rightarrow> interval c | Some t \<Rightarrow> t))"
  "interval (TTL_set c now k v a) = interval c"
  by (simp_all add: TTL_set_def Let_def startExpirationInterval_fields)

section \<open>LRU: the capacity bound\<close>

lemma Map_first_key_has: "m \<noteq> [] \<Longrightarrow> Map_has m (Map_first_key m)"
  by (cases m) (auto simp: Map_first_key_def)

lemma LRU_set_capacity: "capacity (LRU_set c k v) = capacity c"
  by (simp add: LRU_set_def Let_def)

lemma LRU_set_keys_truthy:
  assumes "\<forall>k'. Map_has (lru_store c) k' \<longrightarrow> truthy k'" and "truthy k"
  shows "\<forall>k'. Map_has (lru_store (LRU_set c k v)) k' \<longrightarrow> truthy k'"
  using assms by (auto simp: LRU_set_def Let_def Map_has_set Map_has_delete)

lemma LRU_set_size_bound:
  assumes cap: "1 \<le> capacity c"
    and size: "int (length (lru_store c)) \<le> capacity c"
    and keys: "\<forall>k'. Map_has (lru_store c) k' \<longrightarrow> truthy k'"
  shows "int (length (lru_store (LRU_set c k v))) \<le> capacity c"
proof (cases "int (length (lru_store c)) \<ge> capacity c")
  case False
  have "length (Map_set (lru_store c) k v) \<le> Suc (length (lru_store c))"
    by (rule length_Map_set_le)
  with False show ?thesis
    by (simp add: LRU_set_def Let_def Map_size_def)
next
  case True
  with cap have ne: "lru_store c \<noteq> []" by auto
  from ne keys have t: "truthy (Map_first_key (lru_store c))"
    using Map_first_key_has by blast
  have "length (Map_delete (lru_store c) (Map_first_key (lru_store c))) < length (lru_store c)"
    using ne by (simp add: length_Map_delete_less Map_first_key_has)
  moreover have "length (Map_set (Map_delete (lru_store c) (Map_first_key (lru_store c))) k v)
      \<le> Suc (length (Map_delete (lru_store c) (Map_first_key (lru_store c))))"
    by (rule length_Map_set_le)
  ultimately have "length (Map_set (Map_delete (lru_store c) (Map_first_key (lru_store c))) k v)
      \<le> length (lru_store c)" by linarith
  with True t size show ?thesis
    by (simp add: LRU_set_def Let_def Map_size_def)
qed

lemma LRU_sets_size_bound:
  assumes "1 \<le> capacity c"
    and "int (length (lru_store c)) \<le> capacity c"
    and "\<forall>k'. Map_has (lru_store c) k' \<longrightarrow> truthy k'"
    and "\<forall>kv \<in> set kvs. truthy (fst kv)"
  shows "int (length (lru_store (LRU_sets c kvs))) \<le> capacity c"
  using assms
proof (induction kvs arbitrary: c)
  case Nil
  then show ?case by simp
next
  case (Cons kv kvs)
  obtain k v where kv: "kv = (k, v)" by (cases kv)
  have "int (length (lru_store (LRU_sets (LRU_set c k v) kvs))) \<le> capacity (LRU_set c k v)"
  proof (rule Cons.IH)
    show "1 \<le> capacity (LRU_set c k v)" using Cons.prems by (simp add: LRU_set_capacity)
    show "int (length (lru_store (LRU_set c k v))) \<le> capacity (LRU_set c k v)"
      using Cons.prems by (simp add: LRU_set_capacity LRU_set_size_bound)
    show "\<forall>k'. Map_has (lru_store (LRU_set c k v)) k' \<longrightarrow> truthy k'"
      using Cons.prems kv by (intro LRU_set_keys_truthy) auto
    show "\<forall>kv \<in> set kvs. truthy (fst kv)" using Cons.prems by simp
  qed
  then show ?case by (simp add: kv LRU_set_capacity)
qed

text \<open>
  C1. The specification bounds the number of stored entries by the capacity after every
  \<open>set\<close>. Evaluated on a cache of capacity 1: after \<open>set(0, x)\<close> and \<open>set(1, y)\<close> both
  entries are stored. The second \<open>set\<close> finds the cache full and reads the oldest key,
  \<open>0\<close>; the eviction is guarded by the truthiness of that key, so nothing is evicted.
\<close>

theorem LRU_capacity_exceeded_by_falsy_key:
  "lru_store (LRU_sets (LRUCache_new 1) [(JNum 0, JStr ''x''), (JNum 1, JStr ''y'')])
     = [(JNum 0, JStr ''x''), (JNum 1, JStr ''y'')] \<and>
   LRU_size (LRU_sets (LRUCache_new 1) [(JNum 0, JStr ''x''), (JNum 1, JStr ''y'')]) = 2 \<and>
   \<not> int (LRU_size (LRU_sets (LRUCache_new 1) [(JNum 0, JStr ''x''), (JNum 1, JStr ''y'')])) \<le> 1"
  by (simp add: LRU_size_def LRUCache_new_def LRU_set_def Map_size_def Map_first_key_def)

text \<open>
  When every key that is set is truthy the guard always passes, and the bound holds
  after each call, for every capacity of at least 1.
\<close>

lemma LRU_sets_truthy_keys_bounded:
  assumes "1 \<le> cap" and "\<forall>kv \<in> set kvs. truthy (fst kv)"
  shows "int (LRU_size (LRU_sets (LRUCache_new cap) (take n kvs))) \<le> cap"
proof -
  have "\<forall>kv \<in> set (take n kvs). truthy (fst kv)"
    using assms(2) by (meson in_set_takeD)
  then have "int (length (lru_store (LRU_sets (LRUCache_new cap) (take n kvs))))
      \<le> capacity (LRUCache_new cap)"
    using assms(1) by (intro LRU_sets_size_bound) (simp_all add: LRUCache_new_def)
  then show ?thesis by (simp add: LRU_size_def Map_size_def LRUCache_new_def)
qed

section \<open>LRU: setting a key that is present\<close>

lemma Map_set_present_keys: "Map_has m k \<Longrightarrow> Map_keys (Map_set m k v) = Map_keys m"
  by (induction m) (auto simp: Map_keys_def split: if_splits)

text \<open>
  Below the capacity, \<open>LRU_set\<close> on a key that is present is the built-in \<open>set\<close> alone:
  the value changes and the iteration order does not.
\<close>

lemma LRU_set_present_below_capacity:
  assumes "int (LRU_size c) < capacity c" and "LRU_has c k"
  shows "Map_keys (lru_store (LRU_set c k v)) = Map_keys (lru_store c)"
  using assms by (simp add: LRU_set_def LRU_size_def LRU_has_def Let_def Map_set_present_keys)

text \<open>
  C3. The specification has \<open>set\<close> on a present key move it to the most-recent position.
  Evaluated on a cache of capacity 3 holding \<open>a\<close> and \<open>b\<close>: after \<open>set(a, 9)\<close> the value
  of \<open>a\<close> is 9 and \<open>a\<close> is still the first (least recent) key, not the last.
\<close>

theorem LRU_set_existing_key_keeps_position:
  "lru_store (LRU_sets (LRUCache_new 3)
      [(JStr ''a'', JNum 1), (JStr ''b'', JNum 2), (JStr ''a'', JNum 9)])
     = [(JStr ''a'', JNum 9), (JStr ''b'', JNum 2)]"
  by (simp add: LRUCache_new_def LRU_set_def Map_size_def Map_first_key_def)

text \<open>
  At the capacity the same call first evicts the oldest entry, although no entry is
  added: updating \<open>b\<close> in a full cache of capacity 3 drops \<open>a\<close> and leaves \<open>b\<close> first.
\<close>

lemma LRU_set_existing_key_at_capacity:
  "lru_store (LRU_sets (LRUCache_new 3)
      [(JStr ''a'', JNum 1), (JStr ''b'', JNum 2), (JStr ''c'', JNum 3), (JStr ''b'', JNum 9)])
     = [(JStr ''b'', JNum 9), (JStr ''c'', JNum 3)]"
  by (simp add: LRUCache_new_def LRU_set_def Map_size_def Map_first_key_def)

section \<open>LRU: a hit refreshes, a falsy value is a miss\<close>

text \<open>
  C5. When the key is present and its stored value is falsy, \<open>LRU_get\<close> answers
  \<open>Undefined\<close> and leaves the cache, hence the recency order, as it was. When the stored
  value is truthy, \<open>LRU_get\<close> answers that value, and the store afterwards is the old
  store without the key followed by the entry, so the key is the last one in iteration
  order.
\<close>

theorem LRU_get_falsy_miss_truthy_refresh:
  "(Map_get (lru_store c) k = Some v \<and> \<not> truthy v \<longrightarrow> LRU_get c k = (Undefined, c)) \<and>
   (Map_get (lru_store c) k = Some v \<and> truthy v \<longrightarrow>
      fst (LRU_get c k) = v \<and>
      lru_store (snd (LRU_get c k)) = Map_delete (lru_store c) k @ [(k, v)] \<and>
      last (Map_keys (lru_store (snd (LRU_get c k)))) = k \<and>
      capacity (snd (LRU_get c k)) = capacity c)"
  by (simp add: LRU_get_def Map_get_js_def Map_keys_def Map_set_absent Map_has_delete)

theorem LRU_get_falsy_miss_truthy_refresh_witness:
  "LRU_get \<lparr> lru_store = [(JStr ''a'', JNum 0), (JStr ''b'', JNum 7)], capacity = 2 \<rparr> (JStr ''a'')
     = (Undefined, \<lparr> lru_store = [(JStr ''a'', JNum 0), (JStr ''b'', JNum 7)], capacity = 2 \<rparr>) \<and>
   LRU_get \<lparr> lru_store = [(JStr ''b'', JNum 7), (JStr ''a'', JNum 0)], capacity = 2 \<rparr> (JStr ''b'')
     = (JNum 7, \<lparr> lru_store = [(JStr ''a'', JNum 0), (JStr ''b'', JNum 7)], capacity = 2 \<rparr>)"
  using LRU_get_falsy_miss_truthy_refresh
    [of "\<lparr> lru_store = [(JStr ''a'', JNum 0), (JStr ''b'', JNum 7)], capacity = 2 \<rparr>" "JStr ''a''" "JNum 0"]
    LRU_get_falsy_miss_truthy_refresh
    [of "\<lparr> lru_store = [(JStr ''b'', JNum 7), (JStr ''a'', JNum 0)], capacity = 2 \<rparr>" "JStr ''b''" "JNum 7"]
  by (simp add: prod_eq_iff)

section \<open>LRU: access refresh\<close>

text \<open>
  C6. The specification has it that, after filling a cache of capacity \<open>n\<close> with
  \<open>k1..kn\<close>, a \<open>get(k1)\<close> protects \<open>k1\<close> from the next eviction. Evaluated with capacity 2 and the
  value \<open>0\<close> stored under \<open>a\<close>: \<open>get(a)\<close> answers \<open>Undefined\<close> without refreshing, and the
  following \<open>set(c, 2)\<close> evicts \<open>a\<close>, not \<open>b\<close>.
\<close>

theorem LRU_get_falsy_value_not_refreshed:
  "fst (LRU_get (LRU_sets (LRUCache_new 2) [(JStr ''a'', JNum 0), (JStr ''b'', JNum 1)]) (JStr ''a''))
     = Undefined \<and>
   lru_store (LRU_set
      (snd (LRU_get (LRU_sets (LRUCache_new 2) [(JStr ''a'', JNum 0), (JStr ''b'', JNum 1)]) (JStr ''a'')))
      (JStr ''c'') (JNum 2))
     = [(JStr ''b'', JNum 1), (JStr ''c'', JNum 2)]"
  by (simp add: LRUCache_new_def LRU_set_def LRU_get_def Let_def Map_get_js_def Map_size_def
      Map_first_key_def)

text \<open>
  Setting distinct keys into a cache with room for all of them appends them in order;
  nothing is evicted.
\<close>

lemma LRU_sets_fill:
  assumes "distinct (map fst (lru_store c @ kvs))"
    and "int (length (lru_store c) + length kvs) \<le> capacity c"
  shows "LRU_sets c kvs = c\<lparr> lru_store := lru_store c @ kvs \<rparr>"
  using assms
proof (induction kvs arbitrary: c)
  case Nil
  then show ?case by simp
next
  case (Cons kv kvs)
  obtain k v where kv: "kv = (k, v)" by (cases kv)
  from Cons.prems(1) have absent: "\<not> Map_has (lru_store c) k"
    by (auto simp: kv Map_has_keys)
  from Cons.prems(2) have below: "\<not> int (length (lru_store c)) \<ge> capacity c"
    by simp
  have step: "LRU_set c k v = c\<lparr> lru_store := lru_store c @ [(k, v)] \<rparr>"
    using absent below by (simp add: LRU_set_def Let_def Map_size_def Map_set_absent)
  have "LRU_sets (LRU_set c k v) kvs
      = (LRU_set c k v)\<lparr> lru_store := lru_store (LRU_set c k v) @ kvs \<rparr>"
  proof (rule Cons.IH)
    show "distinct (map fst (lru_store (LRU_set c k v) @ kvs))"
      using Cons.prems(1) by (simp add: step kv)
    show "int (length (lru_store (LRU_set c k v)) + length kvs) \<le> capacity (LRU_set c k v)"
      using Cons.prems(2) by (simp add: step)
  qed
  then show ?case by (simp add: kv step)
qed

text \<open>
  With a truthy value under \<open>k1\<close> and a truthy key \<open>k2\<close> the refresh works as
  specified, for every capacity \<open>n \<ge> 2\<close>: filling the cache with \<open>n\<close> distinct
  keys, reading \<open>k1\<close> and setting a fresh key leaves \<open>k3..kn\<close>, then \<open>k1\<close>, then the
  fresh key; \<open>k2\<close> is gone.
\<close>

lemma LRU_access_refresh_truthy:
  assumes dist: "distinct (map fst ((k1, v1) # (k2, v2) # rest))"
    and cap: "cap = int (length ((k1, v1) # (k2, v2) # rest))"
    and v1: "truthy v1" and k2: "truthy k2"
    and fresh: "k' \<notin> set (map fst ((k1, v1) # (k2, v2) # rest))"
  shows "lru_store (LRU_set (snd (LRU_get (LRU_sets (LRUCache_new cap) ((k1, v1) # (k2, v2) # rest)) k1)) k' v')
     = rest @ [(k1, v1), (k', v')]"
proof -
  let ?kvs = "(k1, v1) # (k2, v2) # rest"
  have filled: "LRU_sets (LRUCache_new cap) ?kvs = \<lparr> lru_store = ?kvs, capacity = cap \<rparr>"
    using dist cap LRU_sets_fill [of "LRUCache_new cap" ?kvs]
    by (simp add: LRUCache_new_def)
  have k1_rest: "\<not> Map_has ((k2, v2) # rest) k1"
    using dist by (auto simp: Map_has_keys)
  have got: "snd (LRU_get \<lparr> lru_store = ?kvs, capacity = cap \<rparr> k1)
      = \<lparr> lru_store = (k2, v2) # rest @ [(k1, v1)], capacity = cap \<rparr>"
    using v1 k1_rest dist
    by (auto simp: LRU_get_def Map_get_js_def Let_def Map_delete_absent Map_set_absent Map_has_keys)
  have k2_rest: "\<not> Map_has (rest @ [(k1, v1)]) k2"
    using dist by (auto simp: Map_has_keys)
  have k'_absent: "\<not> Map_has (rest @ [(k1, v1)]) k'"
    using fresh by (auto simp: Map_has_keys)
  have "lru_store (LRU_set \<lparr> lru_store = (k2, v2) # rest @ [(k1, v1)], capacity = cap \<rparr> k' v')
      = (rest @ [(k1, v1)]) @ [(k', v')]"
    using k2 k2_rest k'_absent cap
    by (simp add: LRU_set_def Let_def Map_size_def Map_first_key_def Map_delete_absent
        Map_set_absent del: append_assoc)
  then show ?thesis unfolding filled got by simp
qed

text \<open>
  With a falsy key \<open>k2\<close> the final \<open>set\<close> evicts nothing: the guard of the eviction
  fails on the oldest key, as in the evaluation of the capacity bound above.
\<close>

lemma LRU_access_refresh_falsy_key:
  "lru_store (LRU_set
      (snd (LRU_get (LRU_sets (LRUCache_new 2) [(JStr ''a'', JNum 5), (JNum 0, JNum 1)]) (JStr ''a'')))
      (JStr ''c'') (JNum 2))
     = [(JNum 0, JNum 1), (JStr ''a'', JNum 5), (JStr ''c'', JNum 2)]"
  by (simp add: LRUCache_new_def LRU_set_def LRU_get_def Let_def Map_get_js_def Map_size_def
      Map_first_key_def)

section \<open>TTL: the ttl argument of set\<close>

text \<open>
  C2 (as amended). \<open>set(k, v)\<close> without a ttl is \<open>set(k, v, interval)\<close>. \<open>set(k, v, 0)\<close>
  keeps the ttl 0 and records the expiry instant \<open>now\<close>: a \<open>get\<close> at the same clock
  reading answers the value, and at a positive clock reading \<open>now\<close> every \<open>get\<close> at a
  later time answers \<open>Undefined\<close>. The two calls give the same cache exactly when the
  interval is 0.
\<close>

theorem TTL_set_zero_ttl:
  "TTL_set c now k v None = TTL_set c now k v (Some (interval c)) \<and>
   Map_get (expirationTimes (TTL_set c now k v (Some 0))) k = Some now \<and>
   TTL_get (TTL_set c now k v (Some 0)) now k = (v, TTL_set c now k v (Some 0)) \<and>
   (0 < now \<and> now < r \<longrightarrow> fst (TTL_get (TTL_set c now k v (Some 0)) r k) = Undefined) \<and>
   (TTL_set c now k v (Some 0) = TTL_set c now k v None \<longleftrightarrow> interval c = 0)"
proof (intro conjI impI)
  show "TTL_set c now k v None = TTL_set c now k v (Some (interval c))"
    by (simp add: TTL_set_def)
  show "Map_get (expirationTimes (TTL_set c now k v (Some 0))) k = Some now"
    by (simp add: TTL_set_fields Map_get_set_same)
  show "TTL_get (TTL_set c now k v (Some 0)) now k = (v, TTL_set c now k v (Some 0))"
    by (simp add: TTL_get_def TTL_set_fields Map_get_set_same Map_get_js_set_same)
next
  assume "0 < now \<and> now < r"
  then show "fst (TTL_get (TTL_set c now k v (Some 0)) r k) = Undefined"
    by (simp add: TTL_get_def TTL_set_fields Map_get_set_same)
next
  show "TTL_set c now k v (Some 0) = TTL_set c now k v None \<longleftrightarrow> interval c = 0"
  proof
    assume eq: "TTL_set c now k v (Some 0) = TTL_set c now k v None"
    have "Map_get (expirationTimes (TTL_set c now k v (Some 0))) k = Some now"
      by (simp add: TTL_set_fields Map_get_set_same)
    moreover have "Map_get (expirationTimes (TTL_set c now k v None)) k = Some (now + interval c)"
      by (simp add: TTL_set_fields Map_get_set_same)
    ultimately show "interval c = 0" using eq by simp
  next
    assume "interval c = 0"
    then show "TTL_set c now k v (Some 0) = TTL_set c now k v None"
      by (simp add: TTL_set_def)
  qed
qed

theorem TTL_set_zero_ttl_witness:
  "TTL_set (TTLCache_new 0) 5 (JStr ''k'') (JNum 1) (Some 0)
     = TTL_set (TTLCache_new 0) 5 (JStr ''k'') (JNum 1) None \<and>
   TTL_set (TTLCache_new 1000) 5 (JStr ''k'') (JNum 1) (Some 0)
     \<noteq> TTL_set (TTLCache_new 1000) 5 (JStr ''k'') (JNum 1) None \<and>
   fst (TTL_get (TTL_set (TTLCache_new 1000) 5 (JStr ''k'') (JNum 1) (Some 0)) 6 (JStr ''k'')) = Undefined"
proof -
  have i0: "interval (TTLCache_new 0) = 0" and i1: "interval (TTLCache_new 1000) \<noteq> 0"
    by (simp_all add: TTLCache_new_def startExpirationInterval_def Map_size_def)
  have late: "(0::int) < 5 \<and> (5::int) < 6" by simp
  have same: "TTL_set (TTLCache_new 0) 5 (JStr ''k'') (JNum 1) (Some 0)
      = TTL_set (TTLCache_new 0) 5 (JStr ''k'') (JNum 1) None"
    using TTL_set_zero_ttl [of "TTLCache_new 0" 5 "JStr ''k''" "JNum 1" 6] i0 by blast
  have differ: "TTL_set (TTLCache_new 1000) 5 (JStr ''k'') (JNum 1) (Some 0)
      \<noteq> TTL_set (TTLCache_new 1000) 5 (JStr ''k'') (JNum 1) None"
    using TTL_set_zero_ttl [of "TTLCache_new 1000" 5 "JStr ''k''" "JNum 1" 6] i1 by blast
  have gone: "fst (TTL_get (TTL_set (TTLCache_new 1000) 5 (JStr ''k'') (JNum 1) (Some 0)) 6 (JStr ''k'')) = Undefined"
    using TTL_set_zero_ttl [of "TTLCache_new 1000" 5 "JStr ''k''" "JNum 1" 6] late by blast
  from same differ gone show ?thesis by blast
qed

theorem TTL_set_zero_ttl_counterexample:
  "fst (TTL_get (TTL_set (TTLCache_new 1000) 5 (JStr ''k'') (JNum 1) (Some 0)) 6 (JStr ''k'')) = Undefined \<and>
   fst (TTL_get (TTL_set (TTLCache_new 1000) 5 (JStr ''k'') (JNum 1) None) 6 (JStr ''k'')) = JNum 1"
  by (simp add: TTL_get_def TTL_set_def TTLCache_new_def startExpirationInterval_def
      Map_size_def Map_get_js_def)

section \<open>TTL: the expiry boundary\<close>



section \<open>Delete\<close>

lemma sweep_entry_inv:
  assumes "\<forall>k. Map_has (expirationTimes c) k \<longrightarrow> Map_has (ttl_store c) k"
  shows "\<forall>k. Map_has (expirationTimes (sweep_entry now e c)) k \<longrightarrow> Map_has (ttl_store (sweep_entry now e c)) k"
  using assms by (cases e) (simp add: sweep_entry_def Map_has_delete)

lemma fold_sweep_inv:
  assumes "\<forall>k. Map_has (expirationTimes c) k \<longrightarrow> Map_has (ttl_store c) k"
  shows "\<forall>k. Map_has (expirationTimes (fold (sweep_entry now) es c)) k
           \<longrightarrow> Map_has (ttl_store (fold (sweep_entry now) es c)) k"
  using assms
proof (induction es arbitrary: c)
  case Nil
  then show ?case by simp
next
  case (Cons e es)
  from Cons.prems have "\<forall>k. Map_has (expirationTimes (sweep_entry now e c)) k
      \<longrightarrow> Map_has (ttl_store (sweep_entry now e c)) k"
    by (rule sweep_entry_inv)
  then show ?case using Cons.IH by simp
qed

lemma sweep_callback_fields:
  "expirationTimes (sweep_callback now c) = expirationTimes (fold (sweep_entry now) (expirationTimes c) c)"
  "ttl_store (sweep_callback now c) = ttl_store (fold (sweep_entry now) (expirationTimes c) c)"
  by (simp_all add: sweep_callback_def Let_def)

lemma TTL_reachable_index_in_store:
  "TTL_reachable c \<Longrightarrow> Map_has (expirationTimes c) k \<Longrightarrow> Map_has (ttl_store c) k"
proof (induction arbitrary: k rule: TTL_reachable.induct)
  case (reach_new iv)
  then show ?case by (simp add: TTLCache_new_def startExpirationInterval_def Let_def split: if_splits)
next
  case (reach_set c now key data ttl_arg)
  then show ?case by (auto simp: TTL_set_fields Map_has_set)
next
  case (reach_get c now key)
  then show ?case
    by (auto simp: TTL_get_def Map_has_delete split: option.splits if_splits)
next
  case (reach_delete c key)
  then show ?case by (auto simp: TTL_delete_def Map_has_delete)
next
  case (reach_clear c)
  then show ?case by (simp add: TTL_clear_def)
next
  case (reach_tick c now)
  have "\<forall>k. Map_has (expirationTimes c) k \<longrightarrow> Map_has (ttl_store c) k"
    using reach_tick.IH by blast
  then have "\<forall>k. Map_has (expirationTimes (fold (sweep_entry now) (expirationTimes c) c)) k
      \<longrightarrow> Map_has (ttl_store (fold (sweep_entry now) (expirationTimes c) c)) k"
    by (rule fold_sweep_inv)
  with reach_tick show ?case
    by (auto simp: sweep_tick_def sweep_callback_fields split: if_splits)
qed

text \<open>
  C7. Deleting an absent key answers \<open>False\<close> and returns the cache unchanged, in the
  LRU engine and in every reachable state of the TTL engine. Deleting a present key of
  the TTL engine answers \<open>True\<close> and leaves the key in neither the value store nor the
  expiry index.
\<close>

theorem delete_absent_and_present:
  "(\<not> LRU_has l k \<longrightarrow> LRU_delete l k = (False, l)) \<and>
   (TTL_reachable c \<and> \<not> TTL_has c k \<longrightarrow> TTL_delete c k = (False, c)) \<and>
   (TTL_has c k \<longrightarrow>
      fst (TTL_delete c k) = True \<and>
      \<not> Map_has (ttl_store (snd (TTL_delete c k))) k \<and>
      \<not> Map_has (expirationTimes (snd (TTL_delete c k))) k)"
proof (intro conjI impI)
  assume "\<not> LRU_has l k"
  then show "LRU_delete l k = (False, l)"
    by (simp add: LRU_has_def LRU_delete_def Map_delete_absent)
next
  assume a: "TTL_reachable c \<and> \<not> TTL_has c k"
  then have "\<not> Map_has (ttl_store c) k" by (simp add: TTL_has_def)
  moreover from this a have "\<not> Map_has (expirationTimes c) k"
    using TTL_reachable_index_in_store by blast
  ultimately show "TTL_delete c k = (False, c)"
    by (simp add: TTL_delete_def Map_delete_absent)
next
  assume "TTL_has c k"
  then show "fst (TTL_delete c k) = True" by (simp add: TTL_has_def TTL_delete_def)
next
  show "\<not> Map_has (ttl_store (snd (TTL_delete c k))) k"
    by (simp add: TTL_delete_def Map_has_delete)
next
  show "\<not> Map_has (expirationTimes (snd (TTL_delete c k))) k"
    by (simp add: TTL_delete_def Map_has_delete)
qed

theorem delete_absent_and_present_witness:
  "LRU_delete (LRU_set (LRUCache_new 2) (JStr ''a'') (JNum 1)) (JStr ''b'')
     = (False, LRU_set (LRUCache_new 2) (JStr ''a'') (JNum 1)) \<and>
   TTL_delete (TTL_set (TTLCache_new 10) 5 (JStr ''a'') (JNum 1) None) (JStr ''b'')
     = (False, TTL_set (TTLCache_new 10) 5 (JStr ''a'') (JNum 1) None) \<and>
   fst (TTL_delete (TTL_set (TTLCache_new 10) 5 (JStr ''a'') (JNum 1) None) (JStr ''a'')) = True"
proof -
  have r: "TTL_reachable (TTL_set (TTLCache_new 10) 5 (JStr ''a'') (JNum 1) None)"
    by (intro reach_set reach_new)
  have l: "\<not> LRU_has (LRU_set (LRUCache_new 2) (JStr ''a'') (JNum 1)) (JStr ''b'')"
    by (simp add: LRU_has_def LRU_set_def LRUCache_new_def Map_size_def)
  have t: "\<not> TTL_has (TTL_set (TTLCache_new 10) 5 (JStr ''a'') (JNum 1) None) (JStr ''b'')"
    by (simp add: TTL_has_def TTL_set_fields TTLCache_new_def startExpirationInterval_def Map_size_def)
  have p: "TTL_has (TTL_set (TTLCache_new 10) 5 (JStr ''a'') (JNum 1) None) (JStr ''a'')"
    by (simp add: TTL_has_def TTL_set_fields TTLCache_new_def startExpirationInterval_def Map_size_def)
  show ?thesis
    using delete_absent_and_present
      [of "LRU_set (LRUCache_new 2) (JStr ''a'') (JNum 1)" "JStr ''b''"
          "TTL_set (TTLCache_new 10) 5 (JStr ''a'') (JNum 1) None"]
      delete_absent_and_present
      [of "LRU_set (LRUCache_new 2) (JStr ''a'') (JNum 1)" "JStr ''a''"
          "TTL_set (TTLCache_new 10) 5 (JStr ''a'') (JNum 1) None"]
      r l t p by blast
qed

section \<open>TTL: the sweep stops when the index is empty\<close>

lemma sweep_entry_index_subset:
  "Map_has (expirationTimes (sweep_entry now e c)) k \<Longrightarrow> Map_has (expirationTimes c) k"
  by (cases e) (auto simp: sweep_entry_def Map_has_delete split: if_splits)

lemma fold_sweep_index_subset:
  "Map_has (expirationTimes (fold (sweep_entry now) es c)) k \<Longrightarrow> Map_has (expirationTimes c) k"
proof (induction es arbitrary: c)
  case Nil
  then show ?case by simp
next
  case (Cons e es)
  then have "Map_has (expirationTimes (sweep_entry now e c)) k" by simp
  then show ?case by (rule sweep_entry_index_subset)
qed

lemma fold_sweep_expired_removed:
  assumes "\<forall>e \<in> set es. snd e < now"
    and "Map_has (expirationTimes (fold (sweep_entry now) es c)) k"
  shows "\<not> Map_has es k"
  using assms
proof (induction es arbitrary: c)
  case Nil
  then show ?case by simp
next
  case (Cons e es)
  obtain key ttl where e: "e = (key, ttl)" by (cases e)
  from Cons.prems have ttl: "ttl < now" by (simp add: e)
  have "Map_has (expirationTimes (sweep_entry now e c)) k"
    using Cons.prems(2) by (auto dest: fold_sweep_index_subset)
  with ttl have "k \<noteq> key" by (auto simp: e sweep_entry_def Map_has_delete)
  moreover have "\<not> Map_has es k"
    using Cons.IH Cons.prems by simp
  ultimately show ?case by (simp add: e)
qed

lemma sweep_all_expired:
  assumes "\<forall>e \<in> set (expirationTimes c). snd e < now"
  shows "expirationTimes (fold (sweep_entry now) (expirationTimes c) c) = []"
proof (rule ccontr)
  assume "expirationTimes (fold (sweep_entry now) (expirationTimes c) c) \<noteq> []"
  then obtain k where k: "Map_has (expirationTimes (fold (sweep_entry now) (expirationTimes c) c)) k"
    using Map_has_nonempty by blast
  then have "Map_has (expirationTimes c) k" by (rule fold_sweep_index_subset)
  moreover have "\<not> Map_has (expirationTimes c) k"
    using assms k by (rule fold_sweep_expired_removed)
  ultimately show False by simp
qed

lemma sweep_callback_handle:
  "expirationInterval (sweep_callback now c) \<longleftrightarrow>
     expirationInterval c \<and> expirationTimes (sweep_callback now c) \<noteq> []"
proof -
  have "expirationInterval (fold (sweep_entry now) es c) = expirationInterval c" for es
    by (induction es arbitrary: c) (auto simp: sweep_entry_def split: prod.splits)
  then show ?thesis
    by (auto simp: sweep_callback_def Let_def Map_size_def)
qed

text \<open>
  C8. A tick of a running sweep that leaves the expiry index empty clears the timer;
  one that leaves entries keeps it. In particular a tick at which every recorded
  expiry has passed empties the index and clears the timer. With the timer cleared a
  tick changes nothing, so after the index is empty further ticks do nothing. A
  \<open>set\<close> on a cache with a positive interval leaves the timer scheduled.
\<close>

theorem sweep_quiescence:
  "(expirationInterval c \<and> expirationTimes (sweep_tick now c) = []
      \<longrightarrow> \<not> expirationInterval (sweep_tick now c)) \<and>
   (expirationInterval c \<and> expirationTimes (sweep_tick now c) \<noteq> []
      \<longrightarrow> expirationInterval (sweep_tick now c)) \<and>
   (expirationInterval c \<and> (\<forall>e \<in> set (expirationTimes c). snd e < now)
      \<longrightarrow> expirationTimes (sweep_tick now c) = [] \<and> \<not> expirationInterval (sweep_tick now c)) \<and>
   (\<not> expirationInterval c \<longrightarrow> sweep_tick now' c = c) \<and>
   (expirationTimes (sweep_tick now c) = []
      \<longrightarrow> sweep_tick now' (sweep_tick now c) = sweep_tick now c) \<and>
   (0 < interval c \<longrightarrow> expirationInterval (TTL_set c now k v a))"
proof (intro conjI impI)
  assume "expirationInterval c \<and> expirationTimes (sweep_tick now c) = []"
  then have "expirationInterval c" and "expirationTimes (sweep_callback now c) = []"
    by (auto simp: sweep_tick_def)
  then show "\<not> expirationInterval (sweep_tick now c)"
    by (simp add: sweep_tick_def sweep_callback_handle)
next
  assume "expirationInterval c \<and> expirationTimes (sweep_tick now c) \<noteq> []"
  then have "expirationInterval c" and "expirationTimes (sweep_callback now c) \<noteq> []"
    by (auto simp: sweep_tick_def)
  then show "expirationInterval (sweep_tick now c)"
    by (simp add: sweep_tick_def sweep_callback_handle)
next
  assume a: "expirationInterval c \<and> (\<forall>e \<in> set (expirationTimes c). snd e < now)"
  then have armed: "expirationInterval c" and "\<forall>e \<in> set (expirationTimes c). snd e < now"
    by simp_all
  then have empty: "expirationTimes (sweep_callback now c) = []"
    by (simp add: sweep_callback_fields sweep_all_expired)
  with armed show "expirationTimes (sweep_tick now c) = []"
    by (simp add: sweep_tick_def)
  from armed empty show "\<not> expirationInterval (sweep_tick now c)"
    by (simp add: sweep_tick_def sweep_callback_handle)
next
  assume "\<not> expirationInterval c"
  then show "sweep_tick now' c = c" by (simp add: sweep_tick_def)
next
  assume e: "expirationTimes (sweep_tick now c) = []"
  have "\<not> expirationInterval (sweep_tick now c)"
  proof (cases "expirationInterval c")
    case True
    with e have "expirationTimes (sweep_callback now c) = []" by (simp add: sweep_tick_def)
    with True show ?thesis by (simp add: sweep_tick_def sweep_callback_handle)
  next
    case False
    then show ?thesis by (simp add: sweep_tick_def)
  qed
  then show "sweep_tick now' (sweep_tick now c) = sweep_tick now c"
    by (simp add: sweep_tick_def)
next
  assume "0 < interval c"
  then show "expirationInterval (TTL_set c now k v a)"
    by (simp add: TTL_set_def Let_def startExpirationInterval_def Map_size_def Map_set_nonempty)
qed

theorem sweep_quiescence_witness:
  "expirationInterval (TTL_set (TTLCache_new 10) 100 (JStr ''k'') (JNum 7) (Some 5)) \<and>
   expirationInterval (sweep_tick 103 (TTL_set (TTLCache_new 10) 100 (JStr ''k'') (JNum 7) (Some 5))) \<and>
   \<not> expirationInterval (sweep_tick 110 (TTL_set (TTLCache_new 10) 100 (JStr ''k'') (JNum 7) (Some 5))) \<and>
   expirationTimes (sweep_tick 110 (TTL_set (TTLCache_new 10) 100 (JStr ''k'') (JNum 7) (Some 5))) = [] \<and>
   sweep_tick 120 (sweep_tick 110 (TTL_set (TTLCache_new 10) 100 (JStr ''k'') (JNum 7) (Some 5)))
     = sweep_tick 110 (TTL_set (TTLCache_new 10) 100 (JStr ''k'') (JNum 7) (Some 5)) \<and>
   sweep_tick 120 (TTLCache_new 10) = TTLCache_new 10"
proof -
  let ?n = "TTLCache_new 10"
  let ?c = "TTL_set ?n 100 (JStr ''k'') (JNum 7) (Some 5)"
  have n: "?n = \<lparr> ttl_store = [], interval = 10, expirationTimes = [], expirationInterval = False \<rparr>"
    by (simp add: TTLCache_new_def startExpirationInterval_def Map_size_def)
  have c: "?c = \<lparr> ttl_store = [(JStr ''k'', JNum 7)], interval = 10,
                  expirationTimes = [(JStr ''k'', 105)], expirationInterval = True \<rparr>"
    by (simp add: n TTL_set_def startExpirationInterval_def Map_size_def)
  have early: "expirationTimes (sweep_tick 103 ?c) \<noteq> []"
    by (simp add: c sweep_tick_def sweep_callback_def sweep_entry_def Map_size_def)
  have late: "\<forall>e \<in> set (expirationTimes ?c). snd e < 110"
    by (simp add: c)
  have armed: "expirationInterval ?c"
    using sweep_quiescence [of ?n 100 120 "JStr ''k''" "JNum 7" "Some 5"] n by simp
  have still: "expirationInterval (sweep_tick 103 ?c)"
    using sweep_quiescence [of ?c 103 120 "JStr ''k''" "JNum 7" "Some 5"] armed early by blast
  have drained: "expirationTimes (sweep_tick 110 ?c) = [] \<and> \<not> expirationInterval (sweep_tick 110 ?c)"
    using sweep_quiescence [of ?c 110 120 "JStr ''k''" "JNum 7" "Some 5"] armed late by blast
  then have stopped: "\<not> expirationInterval (sweep_tick 110 ?c)"
    using sweep_quiescence [of ?c 110 120 "JStr ''k''" "JNum 7" "Some 5"] armed by blast
  have idle: "sweep_tick 120 (sweep_tick 110 ?c) = sweep_tick 110 ?c"
    using sweep_quiescence [of ?c 110 120 "JStr ''k''" "JNum 7" "Some 5"] drained by blast
  have fresh: "sweep_tick 120 ?n = ?n"
    using sweep_quiescence [of ?n 100 120 "JStr ''k''" "JNum 7" "Some 5"] n by simp
  from armed still drained stopped idle fresh show ?thesis by blast
qed

section \<open>TTL: an expired entry stays until an operation removes it\<close>

text \<open>
  C10. \<open>has\<close> and \<open>size\<close> read the value store and never the clock or the expiry index.
  After \<open>set(k, v, t)\<close> at time \<open>s\<close>, \<open>has(k)\<close> is true and \<open>size\<close> counts the entry,
  in that very state in which a \<open>get\<close> at a time after \<open>s + t\<close> finds the entry expired;
  it is that \<open>get\<close> which removes it. A later \<open>set\<close> of any key, at any time, never
  removes a present key.
\<close>

theorem TTL_expired_entry_still_present:
  "TTL_has (TTL_set c s k v (Some t)) k \<and>
   0 < TTL_size (TTL_set c s k v (Some t)) \<and>
   (TTL_has c k \<longrightarrow> TTL_has (TTL_set c now k' v' a) k \<and> TTL_size c \<le> TTL_size (TTL_set c now k' v' a)) \<and>
   (s + t < r \<and> s + t \<noteq> 0 \<longrightarrow>
      fst (TTL_get (TTL_set c s k v (Some t)) r k) = Undefined \<and>
      \<not> TTL_has (snd (TTL_get (TTL_set c s k v (Some t)) r k)) k \<and>
      TTL_size (snd (TTL_get (TTL_set c s k v (Some t)) r k)) < TTL_size (TTL_set c s k v (Some t)))"
proof (intro conjI impI)
  show h: "TTL_has (TTL_set c s k v (Some t)) k"
    by (simp add: TTL_has_def TTL_set_fields Map_has_set)
  then have "ttl_store (TTL_set c s k v (Some t)) \<noteq> []"
    by (auto simp: TTL_has_def)
  then show "0 < TTL_size (TTL_set c s k v (Some t))"
    by (simp add: TTL_size_def Map_size_def)
next
  assume "TTL_has c k"
  then show "TTL_has (TTL_set c now k' v' a) k"
    by (simp add: TTL_has_def TTL_set_fields Map_has_set)
next
  show "TTL_size c \<le> TTL_size (TTL_set c now k' v' a)"
    by (simp add: TTL_size_def Map_size_def TTL_set_fields length_Map_set_ge)
next
  assume a: "s + t < r \<and> s + t \<noteq> 0"
  then show "fst (TTL_get (TTL_set c s k v (Some t)) r k) = Undefined"
    by (simp add: TTL_get_def TTL_set_fields Map_get_set_same)
  from a have st: "ttl_store (snd (TTL_get (TTL_set c s k v (Some t)) r k))
      = Map_delete (Map_set (ttl_store c) k v) k"
    by (simp add: TTL_get_def TTL_set_fields Map_get_set_same)
  show "\<not> TTL_has (snd (TTL_get (TTL_set c s k v (Some t)) r k)) k"
    by (simp add: TTL_has_def st Map_has_delete)
  have "length (Map_delete (Map_set (ttl_store c) k v) k) < length (Map_set (ttl_store c) k v)"
    by (simp add: length_Map_delete_less Map_has_set)
  then show "TTL_size (snd (TTL_get (TTL_set c s k v (Some t)) r k)) < TTL_size (TTL_set c s k v (Some t))"
    by (simp add: TTL_size_def Map_size_def st TTL_set_fields)
qed

theorem TTL_expired_entry_still_present_witness:
  "TTL_has (TTL_set (TTLCache_new 0) 100 (JStr ''k'') (JNum 7) (Some 50)) (JStr ''k'') \<and>
   TTL_size (TTL_set (TTLCache_new 0) 100 (JStr ''k'') (JNum 7) (Some 50)) = 1 \<and>
   TTL_has (TTL_set (TTL_set (TTLCache_new 0) 100 (JStr ''k'') (JNum 7) (Some 50))
              999 (JStr ''j'') (JNum 8) None) (JStr ''k'') \<and>
   fst (TTL_get (TTL_set (TTLCache_new 0) 100 (JStr ''k'') (JNum 7) (Some 50)) 999 (JStr ''k'')) = Undefined \<and>
   TTL_size (snd (TTL_get (TTL_set (TTLCache_new 0) 100 (JStr ''k'') (JNum 7) (Some 50)) 999 (JStr ''k''))) = 0"
proof -
  let ?c = "TTL_set (TTLCache_new 0) 100 (JStr ''k'') (JNum 7) (Some 50)"
  have s: "TTL_size ?c = 1"
    by (simp add: TTL_size_def Map_size_def TTL_set_fields TTLCache_new_def)
  have late: "(100::int) + 50 < 999 \<and> (100::int) + 50 \<noteq> 0" by simp
  have h: "TTL_has ?c (JStr ''k'')"
    using TTL_expired_entry_still_present
      [of "TTLCache_new 0" 100 "JStr ''k''" "JNum 7" 50 0 "JStr ''k''" "JNum 7" None 999]
    by blast
  have kept: "TTL_has (TTL_set ?c 999 (JStr ''j'') (JNum 8) None) (JStr ''k'')"
    using TTL_expired_entry_still_present
      [of ?c 100 "JStr ''k''" "JNum 7" 50 999 "JStr ''j''" "JNum 8" None 999] h
    by blast
  have "fst (TTL_get ?c 999 (JStr ''k'')) = Undefined"
    and "TTL_size (snd (TTL_get ?c 999 (JStr ''k''))) < TTL_size ?c"
    using TTL_expired_entry_still_present
      [of "TTLCache_new 0" 100 "JStr ''k''" "JNum 7" 50 0 "JStr ''k''" "JNum 7" None 999] late
    by blast+
  with s h kept show ?thesis by simp
qed

section \<open>REDISCache: failures are caught, logged and answered neutrally\<close>

lemma catch_log_return:
  "try_catch m (\<lambda>error. async_bind (console_error error) (\<lambda>u. async_return d)) w =
     (case m w of
        (Inl e, w') \<Rightarrow> (Inr d, w'\<lparr> console := console w' @ [e] \<rparr>)
      | (Inr x, w') \<Rightarrow> (Inr x, w'))"
  by (simp add: try_catch_def async_bind_def console_error_def async_return_def
      split: prod.splits sum.splits)

lemma catch_log_return_fulfils:
  "\<not> rejects (try_catch m (\<lambda>error. async_bind (console_error error) (\<lambda>u. async_return d)) w)"
  by (simp add: catch_log_return rejects_def split: prod.splits sum.splits)

lemma catch_log_fulfils: "\<not> rejects (try_catch m (\<lambda>err. console_error err) w)"
  by (simp add: try_catch_def console_error_def rejects_def split: prod.splits sum.splits)

text \<open>
  C9. None of \<open>get\<close>, \<open>set\<close>, \<open>delete\<close>, \<open>has\<close>, \<open>values\<close>, \<open>clear\<close>, \<open>size\<close> rejects,
  whatever the client and the JSON functions do. When the body of the \<^verbatim>\<open>try\<close> block
  throws \<open>e\<close>, the error is appended to the console and the answer is the neutral one:
  \<open>Undefined\<close> for \<open>get\<close>, \<open>False\<close> for \<open>set\<close>, \<open>delete\<close> and \<open>has\<close>, the empty list for
  \<open>values\<close>, \<open>0\<close> for \<open>size\<close>, nothing for \<open>clear\<close>.
\<close>

theorem REDIS_fail_soft:
  "\<not> rejects (REDIS_get J c key w) \<and>
   \<not> rejects (REDIS_set J c key v ttl w) \<and>
   \<not> rejects (REDIS_delete c key w) \<and>
   \<not> rejects (REDIS_has c key w) \<and>
   \<not> rejects (REDIS_values J c w) \<and>
   \<not> rejects (REDIS_clear c w) \<and>
   \<not> rejects (REDIS_size c w) \<and>
   (REDIS_get_try J c key w = (Inl e, w') \<longrightarrow>
      REDIS_get J c key w = (Inr Undefined, w'\<lparr> console := console w' @ [e] \<rparr>)) \<and>
   (REDIS_set_try J c key v ttl w = (Inl e, w') \<longrightarrow>
      REDIS_set J c key v ttl w = (Inr False, w'\<lparr> console := console w' @ [e] \<rparr>)) \<and>
   (REDIS_delete_try c key w = (Inl e, w') \<longrightarrow>
      REDIS_delete c key w = (Inr False, w'\<lparr> console := console w' @ [e] \<rparr>)) \<and>
   (REDIS_has_try c key w = (Inl e, w') \<longrightarrow>
      REDIS_has c key w = (Inr False, w'\<lparr> console := console w' @ [e] \<rparr>)) \<and>
   (REDIS_values_try J c w = (Inl e, w') \<longrightarrow>
      REDIS_values J c w = (Inr [], w'\<lparr> console := console w' @ [e] \<rparr>)) \<and>
   (REDIS_clear_try c w = (Inl e, w') \<longrightarrow>
      REDIS_clear c w = (Inr (), w'\<lparr> console := console w' @ [e] \<rparr>)) \<and>
   (REDIS_size_try c w = (Inl e, w') \<longrightarrow>
      REDIS_size c w = (Inr 0, w'\<lparr> console := console w' @ [e] \<rparr>))"
proof (intro conjI impI)
  show "\<not> rejects (REDIS_get J c key w)"
    unfolding REDIS_get_def by (rule catch_log_return_fulfils)
  show "\<not> rejects (REDIS_set J c key v ttl w)"
    unfolding REDIS_set_def by (rule catch_log_return_fulfils)
  show "\<not> rejects (REDIS_delete c key w)"
    unfolding REDIS_delete_def by (rule catch_log_return_fulfils)
  show "\<not> rejects (REDIS_has c key w)"
    unfolding REDIS_has_def by (rule catch_log_return_fulfils)
  show "\<not> rejects (REDIS_values J c w)"
    unfolding REDIS_values_def by (rule catch_log_return_fulfils)
  show "\<not> rejects (REDIS_clear c w)"
    unfolding REDIS_clear_def by (rule catch_log_fulfils)
  show "\<not> rejects (REDIS_size c w)"
    unfolding REDIS_size_def by (rule catch_log_return_fulfils)
next
  assume "REDIS_get_try J c key w = (Inl e, w')"
  then show "REDIS_get J c key w = (Inr Undefined, w'\<lparr> console := console w' @ [e] \<rparr>)"
    by (simp add: REDIS_get_def catch_log_return)
next
  assume "REDIS_set_try J c key v ttl w = (Inl e, w')"
  then show "REDIS_set J c key v ttl w = (Inr False, w'\<lparr> console := console w' @ [e] \<rparr>)"
    by (simp add: REDIS_set_def catch_log_return)
next
  assume "REDIS_delete_try c key w = (Inl e, w')"
  then show "REDIS_delete c key w = (Inr False, w'\<lparr> console := console w' @ [e] \<rparr>)"
    by (simp add: REDIS_delete_def catch_log_return)
next
  assume "REDIS_has_try c key w = (Inl e, w')"
  then show "REDIS_has c key w = (Inr False, w'\<lparr> console := console w' @ [e] \<rparr>)"
    by (simp add: REDIS_has_def catch_log_return)
next
  assume "REDIS_values_try J c w = (Inl e, w')"
  then show "REDIS_values J c w = (Inr [], w'\<lparr> console := console w' @ [e] \<rparr>)"
    by (simp add: REDIS_values_def catch_log_return)
next
  assume "REDIS_clear_try c w = (Inl e, w')"
  then show "REDIS_clear c w = (Inr (), w'\<lparr> console := console w' @ [e] \<rparr>)"
    by (simp add: REDIS_clear_def try_catch_def console_error_def)
next
  assume "REDIS_size_try c w = (Inl e, w')"
  then show "REDIS_size c w = (Inr 0, w'\<lparr> console := console w' @ [e] \<rparr>)"
    by (simp add: REDIS_size_def catch_log_return)
qed

theorem REDIS_fail_soft_witness:
  "REDIS_get json_text \<lparr> cache_identifier = ''app'', redis = down_client \<rparr> ''k''
      \<lparr> server = 0, console = [] \<rparr>
     = (Inr Undefined, \<lparr> server = 1, console = [JsError ''ECONNREFUSED''] \<rparr>) \<and>
   REDIS_set json_text \<lparr> cache_identifier = ''app'', redis = down_client \<rparr> ''k'' (JStr ''v'') None
      \<lparr> server = 0, console = [] \<rparr>
     = (Inr False, \<lparr> server = 1, console = [JsError ''ECONNREFUSED''] \<rparr>) \<and>
   REDIS_delete \<lparr> cache_identifier = ''app'', redis = down_client \<rparr> ''k''
      \<lparr> server = 0, console = [] \<rparr>
     = (Inr False, \<lparr> server = 1, console = [JsError ''ECONNREFUSED''] \<rparr>) \<and>
   REDIS_has \<lparr> cache_identifier = ''app'', redis = down_client \<rparr> ''k''
      \<lparr> server = 0, console = [] \<rparr>
     = (Inr False, \<lparr> server = 1, console = [JsError ''ECONNREFUSED''] \<rparr>) \<and>
   REDIS_values json_text \<lparr> cache_identifier = ''app'', redis = down_client \<rparr>
      \<lparr> server = 0, console = [] \<rparr>
     = (Inr [], \<lparr> server = 1, console = [JsError ''ECONNREFUSED''] \<rparr>) \<and>
   REDIS_clear \<lparr> cache_identifier = ''app'', redis = down_client \<rparr>
      \<lparr> server = 0, console = [] \<rparr>
     = (Inr (), \<lparr> server = 1, console = [JsError ''ECONNREFUSED''] \<rparr>) \<and>
   REDIS_size \<lparr> cache_identifier = ''app'', redis = down_client \<rparr>
      \<lparr> server = 0, console = [] \<rparr>
     = (Inr 0, \<lparr> server = 1, console = [JsError ''ECONNREFUSED''] \<rparr>)"
proof -
  let ?c = "\<lparr> cache_identifier = ''app'', redis = down_client \<rparr>"
  let ?w = "\<lparr> server = 0::nat, console = [] \<rparr>"
  let ?w' = "\<lparr> server = 1::nat, console = [] \<rparr>"
  let ?e = "JsError ''ECONNREFUSED''"
  have g: "REDIS_get_try json_text ?c ''k'' ?w = (Inl ?e, ?w')"
    by (simp add: REDIS_get_try_def async_bind_def await_def down_client_def unreachable_def)
  have s: "REDIS_set_try json_text ?c ''k'' (JStr ''v'') None ?w = (Inl ?e, ?w')"
    by (simp add: REDIS_set_try_def async_bind_def await_def of_result_def json_text_def
        down_client_def unreachable_def)
  have d: "REDIS_delete_try ?c ''k'' ?w = (Inl ?e, ?w')"
    by (simp add: REDIS_delete_try_def async_bind_def await_def down_client_def unreachable_def)
  have h: "REDIS_has_try ?c ''k'' ?w = (Inl ?e, ?w')"
    by (simp add: REDIS_has_try_def async_bind_def await_def down_client_def unreachable_def)
  have v: "REDIS_values_try json_text ?c ?w = (Inl ?e, ?w')"
    by (simp add: REDIS_values_try_def async_bind_def await_def down_client_def unreachable_def)
  have l: "REDIS_clear_try ?c ?w = (Inl ?e, ?w')"
    by (simp add: REDIS_clear_try_def async_bind_def await_def down_client_def unreachable_def)
  have z: "REDIS_size_try ?c ?w = (Inl ?e, ?w')"
    by (simp add: REDIS_size_try_def async_bind_def await_def down_client_def unreachable_def)
  from g s d h v l z show ?thesis
    using REDIS_fail_soft [of json_text ?c "''k''" ?w "JStr ''v''" None ?e ?w']
    by simp
qed

text \<open>The two ways \<open>get\<close> can fail: the transport throws, or the payload does not parse.\<close>

lemma REDIS_get_transport_failure:
  assumes "redis_get (redis c) (raw_key c key) (server w) = (Inl e, s')"
  shows "REDIS_get J c key w = (Inr Undefined, \<lparr> server = s', console = console w @ [e] \<rparr>)"
  using assms
  by (simp add: REDIS_get_def REDIS_get_try_def catch_log_return async_bind_def await_def)

lemma REDIS_get_parse_failure:
  assumes "redis_get (redis c) (raw_key c key) (server w) = (Inr value, s')"
    and "truthy value" and "JSON_parse J value = Inl e"
  shows "REDIS_get J c key w = (Inr Undefined, \<lparr> server = s', console = console w @ [e] \<rparr>)"
  using assms
  by (simp add: REDIS_get_def REDIS_get_try_def catch_log_return async_bind_def await_def
      of_result_def)

end
